theory Spec2Isabelle
  imports Main "HOL-Library.Word"
begin

section \<open>Data model of serial.c\<close>

text \<open>
  The serial front end of the CM-510 controller works on bytes (\<open>unsigned char\<close>,
  \<open>uint8\<close>). The build treats plain \<open>char\<close> as an unsigned 8-bit value, which is
  what the comparisons of a \<open>char\<close> with \<open>0xFF\<close> in \<open>SerialReceiveCommand\<close> rely on.
\<close>

type_synonym byte = "8 word"

text \<open>
  The headers \<open>global.h\<close> and \<open>serial.h\<close> define four macros that \<open>serial.c\<close> uses.
  They are parameters of the model.
\<close>

record config =
  MAXNUM_SERIALBUFF :: nat
  NUMBER_OF_COMMANDS :: nat
  COMMAND_NOT_FOUND :: byte
  COMMAND_MOTIONPAGE :: byte

text \<open>
  The global variables of \<open>serial.c\<close>, and \<open>tx\<close>, the bytes written to the data register
  \<open>UDR1\<close> of the transmitter so far, in order.
\<close>

record state =
  gbSerialBuffer :: "byte list"
  gbSerialBufferHead :: byte
  gbSerialBufferTail :: byte
  bioloid_command :: byte
  last_bioloid_command :: byte
  flag_receive_ready :: byte
  current_motion_page :: byte
  last_motion_page :: byte
  tx :: "byte list"

section \<open>The ring buffer\<close>

text \<open>\<open>serial_get_qstate\<close>: the number of bytes in the buffer, from head and tail.\<close>

definition serial_get_qstate :: "config \<Rightarrow> state \<Rightarrow> int" where
  "serial_get_qstate cfg s =
     (if gbSerialBufferHead s = gbSerialBufferTail s then 0
      else if gbSerialBufferHead s < gbSerialBufferTail s
        then uint (gbSerialBufferTail s) - uint (gbSerialBufferHead s)
      else int (MAXNUM_SERIALBUFF cfg)
             - (uint (gbSerialBufferHead s) - uint (gbSerialBufferTail s)))"

text \<open>\<open>serial_put_queue\<close>: a byte is ignored when the buffer is full.\<close>

definition serial_put_queue :: "config \<Rightarrow> byte \<Rightarrow> state \<Rightarrow> state" where
  "serial_put_queue cfg data s =
     (if serial_get_qstate cfg s = int (MAXNUM_SERIALBUFF cfg) - 1 then s
      else
        let s1 = s\<lparr>gbSerialBuffer :=
                    (gbSerialBuffer s)[unat (gbSerialBufferTail s) := data]\<rparr>
        in if uint (gbSerialBufferTail s1) = int (MAXNUM_SERIALBUFF cfg) - 1
           then s1\<lparr>gbSerialBufferTail := 0\<rparr>
           else s1\<lparr>gbSerialBufferTail := gbSerialBufferTail s1 + 1\<rparr>)"

text \<open>\<open>serial_get_queue\<close>: the byte at the head, or \<open>0xFF\<close> from an empty buffer.\<close>

definition serial_get_queue :: "config \<Rightarrow> state \<Rightarrow> byte \<times> state" where
  "serial_get_queue cfg s =
     (if gbSerialBufferHead s = gbSerialBufferTail s then (0xFF, s)
      else
        let data = gbSerialBuffer s ! unat (gbSerialBufferHead s)
        in if uint (gbSerialBufferHead s) = int (MAXNUM_SERIALBUFF cfg) - 1
           then (data, s\<lparr>gbSerialBufferHead := 0\<rparr>)
           else (data, s\<lparr>gbSerialBufferHead := gbSerialBufferHead s + 1\<rparr>))"

text \<open>
  The indices are in range when the storage has \<open>MAXNUM_SERIALBUFF\<close> cells, head and
  tail point into it, and the capacity fits the 8-bit indices.
\<close>

definition rb_wf :: "config \<Rightarrow> state \<Rightarrow> bool" where
  "rb_wf cfg s \<longleftrightarrow>
     length (gbSerialBuffer s) = MAXNUM_SERIALBUFF cfg \<and>
     unat (gbSerialBufferHead s) < MAXNUM_SERIALBUFF cfg \<and>
     unat (gbSerialBufferTail s) < MAXNUM_SERIALBUFF cfg \<and>
     MAXNUM_SERIALBUFF cfg \<le> 256"

text \<open>The bytes waiting in the buffer, oldest first: the cells from head up to tail, cyclically.\<close>

definition rb_count :: "config \<Rightarrow> state \<Rightarrow> nat" where
  "rb_count cfg s =
     (unat (gbSerialBufferTail s) + MAXNUM_SERIALBUFF cfg - unat (gbSerialBufferHead s))
       mod MAXNUM_SERIALBUFF cfg"

definition rb_contents :: "config \<Rightarrow> state \<Rightarrow> byte list" where
  "rb_contents cfg s =
     map (\<lambda>k. gbSerialBuffer s ! ((unat (gbSerialBufferHead s) + k) mod MAXNUM_SERIALBUFF cfg))
       [0 ..< rb_count cfg s]"


text \<open>
  A put is accepted when the guard of \<open>serial_put_queue\<close> lets it through; a get
  delivers a stored byte when the buffer is not empty.
\<close>

definition put_accepted :: "config \<Rightarrow> state \<Rightarrow> bool" where
  "put_accepted cfg s \<longleftrightarrow> serial_get_qstate cfg s \<noteq> int (MAXNUM_SERIALBUFF cfg) - 1"

definition get_succeeds :: "state \<Rightarrow> bool" where
  "get_succeeds s \<longleftrightarrow> gbSerialBufferHead s \<noteq> gbSerialBufferTail s"

text \<open>A run of puts, one byte after the other.\<close>

fun put_all :: "config \<Rightarrow> byte list \<Rightarrow> state \<Rightarrow> state" where
  "put_all cfg [] s = s"
| "put_all cfg (b # bs) s = put_all cfg bs (serial_put_queue cfg b s)"

text \<open>
  Any interleaving of puts and gets. \<open>rb_run\<close> returns the final state, the bytes of
  the accepted puts and the bytes delivered by the successful gets, each in order.
\<close>

datatype rb_op = Put byte | Get

fun rb_run :: "config \<Rightarrow> rb_op list \<Rightarrow> state \<Rightarrow> state \<times> byte list \<times> byte list" where
  "rb_run cfg [] s = (s, [], [])"
| "rb_run cfg (Put b # ops) s =
     (case rb_run cfg ops (serial_put_queue cfg b s) of
        (s', ins, outs) \<Rightarrow> (s', (if put_accepted cfg s then [b] else []) @ ins, outs))"
| "rb_run cfg (Get # ops) s =
     (case rb_run cfg ops (snd (serial_get_queue cfg s)) of
        (s', ins, outs) \<Rightarrow>
          (s', ins, (if get_succeeds s then [fst (serial_get_queue cfg s)] else []) @ outs))"

section \<open>Transmitting\<close>

text \<open>
  \<open>serial_write\<close> waits for the data register to empty before each byte and then
  writes the byte to \<open>UDR1\<close>. The model records the bytes written; the wait on the
  hardware flag is not modelled.
\<close>

definition serial_write :: "byte list \<Rightarrow> state \<Rightarrow> state" where
  "serial_write pData s = s\<lparr>tx := tx s @ pData\<rparr>"

text \<open>\<open>std_putchar\<close>: a newline is replaced with CR+LF.\<close>

definition std_putchar :: "byte \<Rightarrow> state \<Rightarrow> state" where
  "std_putchar c s =
     (if c = 0x0A then serial_write [0x0D, 0x0A] s else serial_write [c] s)"

text \<open>
  \<open>printf\<close> writes to the device opened by \<open>fdevopen\<close> in \<open>serial_init\<close>: each
  character of the formatted text goes through \<open>std_putchar\<close>.
\<close>

fun put_string :: "byte list \<Rightarrow> state \<Rightarrow> state" where
  "put_string [] s = s"
| "put_string (c # cs) s = put_string cs (std_putchar c s)"

definition bytes_of :: "string \<Rightarrow> byte list" where
  "bytes_of str = map (\<lambda>c. of_nat (of_char c)) str"

text \<open>The conversion \<open>%i\<close> of a \<open>uint8\<close> argument: its decimal digits.\<close>

definition digit_char :: "nat \<Rightarrow> byte" where
  "digit_char d = of_nat (48 + d)"

definition format_uint8 :: "byte \<Rightarrow> byte list" where
  "format_uint8 v =
     (let n = unat v in
      if n < 10 then [digit_char n]
      else if n < 100 then [digit_char (n div 10), digit_char (n mod 10)]
      else [digit_char (n div 100), digit_char (n div 10 mod 10), digit_char (n mod 10)])"

section \<open>The receive interrupt\<close>

text \<open>\<open>USART1_RX_vect\<close>, with the byte read from \<open>UDR1\<close> as its argument.\<close>

definition USART1_RX_vect :: "config \<Rightarrow> byte \<Rightarrow> state \<Rightarrow> state" where
  "USART1_RX_vect cfg c s =
     (if c = 0x0D then
        let s1 = s\<lparr>flag_receive_ready := 1\<rparr>;
            s2 = serial_put_queue cfg 0xFF s1;
            s3 = std_putchar 0x0A s2
        in std_putchar 0x20 s3
      else
        let s1 = serial_put_queue cfg c s
        in std_putchar c s1)"

text \<open>The interrupt runs once for each byte that arrives.\<close>

fun receive :: "config \<Rightarrow> byte list \<Rightarrow> state \<Rightarrow> state" where
  "receive cfg [] s = s"
| "receive cfg (c # cs) s = receive cfg cs (USART1_RX_vect cfg c s)"

text \<open>
  \<open>serial_init\<close>, without the configuration of the USART registers: it writes \<open>0xFF\<close>
  to \<open>UDR1\<close>, empties the buffer and resets the commands and the flag.
\<close>

definition serial_init :: "state \<Rightarrow> state" where
  "serial_init s =
     s\<lparr>tx := tx s @ [0xFF], gbSerialBufferHead := 0, gbSerialBufferTail := 0,
       bioloid_command := 0, last_bioloid_command := 0, flag_receive_ready := 0\<rparr>"

text \<open>The variables as the initialisers of the program leave them, all zero.\<close>

definition startup :: "config \<Rightarrow> state" where
  "startup cfg =
     \<lparr>gbSerialBuffer = replicate (MAXNUM_SERIALBUFF cfg) 0,
      gbSerialBufferHead = 0, gbSerialBufferTail = 0,
      bioloid_command = 0, last_bioloid_command = 0, flag_receive_ready = 0,
      current_motion_page = 0, last_motion_page = 0, tx = []\<rparr>"

section \<open>The command dispatcher\<close>

text \<open>The command strings, in the order of \<open>COMMANDSTR_POINTER\<close>.\<close>

definition COMMANDSTR_POINTER :: "string list" where
  "COMMANDSTR_POINTER =
     [''STOP'', ''WF  '', ''WB  '', ''WLT '', ''WRT '',
      ''WLS '', ''WRS '', ''WFLS'', ''WFRS'', ''WBLS'',
      ''WBRS'', ''WAL '', ''WAR '', ''WFLT'', ''WFRT'',
      ''WBLT'', ''WBRT'', ''SIT '', ''BAL '', ''M   '']"

text \<open>\<open>toupper\<close> of the C library, in the C locale.\<close>

definition toupper :: "byte \<Rightarrow> byte" where
  "toupper c = (if 0x61 \<le> c \<and> c \<le> 0x7A then c - 0x20 else c)"

text \<open>
  \<open>strcmp\<close> returning 0: the two strings agree up to their terminating zero bytes.
  Both arguments are followed by a zero byte in the source (\<open>command[4] = 0x00\<close>).
\<close>

definition strcmp_equal :: "byte list \<Rightarrow> byte list \<Rightarrow> bool" where
  "strcmp_equal a b \<longleftrightarrow> takeWhile (\<lambda>c. c \<noteq> 0) a = takeWhile (\<lambda>c. c \<noteq> 0) b"

text \<open>
  The first part of \<open>SerialReceiveCommand\<close>: four bytes are taken from the queue, a
  lower-case letter is converted to upper case, \<open>0xFF\<close> in the second, third and fourth
  byte is replaced with a blank, and one more byte is taken from the queue.
\<close>

definition get_command :: "config \<Rightarrow> state \<Rightarrow> (byte \<times> byte \<times> byte \<times> byte) \<times> state" where
  "get_command cfg s0 =
     (let (c1, s1) = serial_get_queue cfg s0;
          c1 = (if 0x61 \<le> c1 \<and> c1 \<le> 0x7A then toupper c1 else c1);
          (c2, s2) = serial_get_queue cfg s1;
          c2 = (if 0x61 \<le> c2 \<and> c2 \<le> 0x7A then toupper c2 else c2);
          c2 = (if c2 = 0xFF then 0x20 else c2);
          (c3, s3) = serial_get_queue cfg s2;
          c3 = (if 0x61 \<le> c3 \<and> c3 \<le> 0x7A then toupper c3 else c3);
          c3 = (if c3 = 0xFF then 0x20 else c3);
          (c4, s4) = serial_get_queue cfg s3;
          c4 = (if 0x61 \<le> c4 \<and> c4 \<le> 0x7A then toupper c4 else c4);
          c4 = (if c4 = 0xFF then 0x20 else c4);
          (flushed, s5) = serial_get_queue cfg s4
      in ((c1, c2, c3, c4), s5))"

text \<open>
  The loop over the known commands, from index \<open>i\<close> on. The source reads
  \<open>COMMANDSTR_POINTER[i]\<close> for every \<open>i\<close> below \<open>NUMBER_OF_COMMANDS\<close>; the table
  has 20 entries, so the loop is meaningful for \<open>NUMBER_OF_COMMANDS\<close> up to 20, where
  the 8-bit counter does not wrap.
\<close>

function match_loop :: "config \<Rightarrow> byte list \<Rightarrow> nat \<Rightarrow> state \<Rightarrow> state" where
  "match_loop cfg command i s =
     (if i < NUMBER_OF_COMMANDS cfg then
        if strcmp_equal (bytes_of (COMMANDSTR_POINTER ! i)) command
        then s\<lparr>last_bioloid_command := bioloid_command s, bioloid_command := of_nat i\<rparr>
        else match_loop cfg command (i + 1)
               (if i = NUMBER_OF_COMMANDS cfg - 1
                then s\<lparr>bioloid_command := COMMAND_NOT_FOUND cfg\<rparr> else s)
      else s)"
  by pat_completeness auto
termination
  by (relation "measure (\<lambda>(cfg, command, i, s). NUMBER_OF_COMMANDS cfg - i)") auto

declare match_loop.simps [simp del]

text \<open>The special case of the motion page command.\<close>

definition motion_page_case :: "config \<Rightarrow> byte \<Rightarrow> byte \<Rightarrow> byte \<Rightarrow> byte \<Rightarrow> state \<Rightarrow> state" where
  "motion_page_case cfg c1 c2 c3 c4 s =
     (if bioloid_command s = COMMAND_NOT_FOUND cfg then
        if c1 = 0x4D \<and> (0x30 \<le> c2 \<and> c2 \<le> 0x39) then
          let s1 = s\<lparr>bioloid_command := COMMAND_MOTIONPAGE cfg\<rparr>;
              s2 = s1\<lparr>last_motion_page := current_motion_page s1\<rparr>;
              s3 = s2\<lparr>current_motion_page := c2 - 48\<rparr>;
              s4 = (if 0x30 \<le> c3 \<and> c3 \<le> 0x39
                    then s3\<lparr>current_motion_page := current_motion_page s3 * 10 + (c3 - 48)\<rparr>
                    else s3)
          in if 0x30 \<le> c4 \<and> c4 \<le> 0x39
             then s4\<lparr>current_motion_page := current_motion_page s4 * 10 + (c4 - 48)\<rparr>
             else s4
        else s
      else s)"

text \<open>The echo of the command and the new prompt.\<close>

definition acknowledge :: "config \<Rightarrow> byte \<Rightarrow> byte \<Rightarrow> byte \<Rightarrow> byte \<Rightarrow> state \<Rightarrow> state" where
  "acknowledge cfg c1 c2 c3 c4 s =
     (if bioloid_command s = COMMAND_MOTIONPAGE cfg then
        put_string ([c1, c2, c3, c4] @ bytes_of '' - MotionPageCommand ''
                    @ format_uint8 (current_motion_page s) @ [0x0A] @ bytes_of ''> '') s
      else if bioloid_command s \<noteq> COMMAND_NOT_FOUND cfg then
        put_string ([c1, c2, c3, c4] @ bytes_of '' - Command # ''
                    @ format_uint8 (bioloid_command s) @ [0x0A] @ bytes_of ''> '') s
      else
        put_string ([c1, c2, c3, c4] @ bytes_of '' '' @ [0x0A]
                    @ bytes_of ''Unknown Command! '' @ [0x0A] @ bytes_of ''> '') s)"

text \<open>\<open>SerialReceiveCommand\<close>, polled by the main loop.\<close>

definition SerialReceiveCommand :: "config \<Rightarrow> state \<Rightarrow> state" where
  "SerialReceiveCommand cfg s =
     (if flag_receive_ready s = 0 then s
      else
        case get_command cfg s of
          ((c1, c2, c3, c4), s1) \<Rightarrow>
            let s2 = match_loop cfg [c1, c2, c3, c4] 0 s1;
                s3 = motion_page_case cfg c1 c2 c3 c4 s2;
                s4 = s3\<lparr>flag_receive_ready := 0\<rparr>
            in acknowledge cfg c1 c2 c3 c4 s4)"

text \<open>
  What the gets of \<open>get_command\<close> deliver, in terms of the bytes \<open>xs\<close> waiting in the
  buffer: the \<open>k\<close>-th get returns the \<open>k\<close>-th byte, or \<open>0xFF\<close> when the buffer has run
  empty. \<open>fold_case\<close> is the conversion applied to each byte, \<open>pad_blank\<close> the
  conversion followed by the replacement of \<open>0xFF\<close> applied to the bytes after the first.
\<close>

definition byte_at :: "byte list \<Rightarrow> nat \<Rightarrow> byte" where
  "byte_at xs k = (if k < length xs then xs ! k else 0xFF)"

definition fold_case :: "byte \<Rightarrow> byte" where
  "fold_case c = (if 0x61 \<le> c \<and> c \<le> 0x7A then toupper c else c)"

definition pad_blank :: "byte \<Rightarrow> byte" where
  "pad_blank c = (if fold_case c = 0xFF then 0x20 else fold_case c)"

text \<open>The test for a decimal digit used by the motion page case.\<close>

definition is_digit :: "byte \<Rightarrow> bool" where
  "is_digit c \<longleftrightarrow> 0x30 \<le> c \<and> c \<le> 0x39"

text \<open>The base-10 value of a string of digit characters.\<close>

definition decimal_value :: "byte list \<Rightarrow> nat" where
  "decimal_value ds = foldl (\<lambda>v d. 10 * v + (unat d - 48)) 0 ds"

text \<open>A command string matches an entry of the table among the first \<open>NUMBER_OF_COMMANDS\<close>.\<close>

definition table_match :: "config \<Rightarrow> byte list \<Rightarrow> bool" where
  "table_match cfg command \<longleftrightarrow>
     (\<exists>i \<in> {0 ..< NUMBER_OF_COMMANDS cfg}.
        strcmp_equal (bytes_of (COMMANDSTR_POINTER ! i)) command)"

text \<open>
  Modelled from the spec: the values of the macros \<open>MAXNUM_SERIALBUFF\<close>,
  \<open>NUMBER_OF_COMMANDS\<close>, \<open>COMMAND_NOT_FOUND\<close> and \<open>COMMAND_MOTIONPAGE\<close>, whose
  headers are not among the sources. The command vocabulary of the spec has 20 tokens,
  \<open>M\<close> is ordinal 19, and the not-found ordinal is \<open>0xFF\<close> (as the comment in the
  loop says). With \<open>NUMBER_OF_COMMANDS\<close> at 20 the loop visits every entry of
  \<open>COMMANDSTR_POINTER\<close>. A capacity of 256 is the largest that the 8-bit head and
  tail can index.
\<close>

definition cm510 :: config where
  "cm510 = \<lparr>MAXNUM_SERIALBUFF = 256, NUMBER_OF_COMMANDS = 20,
             COMMAND_NOT_FOUND = 0xFF, COMMAND_MOTIONPAGE = 19\<rparr>"


text \<open>A small buffer of four cells, empty, with head and tail at the last cell.\<close>

definition small :: config where
  "small = \<lparr>MAXNUM_SERIALBUFF = 4, NUMBER_OF_COMMANDS = 20,
             COMMAND_NOT_FOUND = 0xFF, COMMAND_MOTIONPAGE = 19\<rparr>"

definition small_empty :: state where
  "small_empty = (startup small)\<lparr>gbSerialBufferHead := 3, gbSerialBufferTail := 3\<rparr>"

text \<open>
  Puts and gets on the small buffer: the fourth put finds the buffer full, the sixth
  get finds it empty, and the tail passes the end of the storage twice.
\<close>

definition small_ops :: "rb_op list" where
  "small_ops = [Put 1, Put 2, Put 3, Put 4, Get, Get, Put 5, Put 6, Get, Get, Get, Get,
                Put 7, Put 8, Put 9, Get]"

text \<open>The state after the frame \<open>SIT\<close> has been received and dispatched.\<close>

definition after_sit :: state where
  "after_sit = SerialReceiveCommand cm510
                 (receive cm510 (bytes_of ''SIT'' @ [0x0D]) (serial_init (startup cm510)))"

section \<open>Properties of the ring buffer\<close>

lemma rb_count_alt:
  "rb_wf cfg s \<Longrightarrow> rb_count cfg s =
     (if unat (gbSerialBufferHead s) \<le> unat (gbSerialBufferTail s)
      then unat (gbSerialBufferTail s) - unat (gbSerialBufferHead s)
      else MAXNUM_SERIALBUFF cfg + unat (gbSerialBufferTail s) - unat (gbSerialBufferHead s))"
  unfolding rb_count_def rb_wf_def
  by (auto simp add: mod_if not_le)

lemma length_rb_contents: "length (rb_contents cfg s) = rb_count cfg s"
  by (simp add: rb_contents_def)

lemma qstate_count:
  "rb_wf cfg s \<Longrightarrow> serial_get_qstate cfg s = int (rb_count cfg s)"
  apply (simp add: rb_count_alt)
  apply (auto simp add: serial_get_qstate_def rb_wf_def word_less_nat_alt word_le_nat_alt not_le not_less)
  using unsigned_word_eqI by auto

lemma rb_count_less: "rb_wf cfg s \<Longrightarrow> rb_count cfg s < MAXNUM_SERIALBUFF cfg"
  by (simp add: rb_count_def rb_wf_def)

lemma rb_count_0_iff:
  "rb_wf cfg s \<Longrightarrow> rb_count cfg s = 0 \<longleftrightarrow> gbSerialBufferHead s = gbSerialBufferTail s"
  by (auto simp add: rb_count_alt rb_wf_def word_unat_eq_iff)

lemma cyc_neq:
  fixes h k n N :: nat
  assumes "k < n" "n < N"
  shows "(h + k) mod N \<noteq> (h + n) mod N"
proof
  assume "(h + k) mod N = (h + n) mod N"
  then have "N dvd (h + n) - (h + k)"
    using assms by (metis mod_eq_dvd_iff_nat add_le_cancel_left less_imp_le)
  then have "N dvd n - k" by simp
  then have "N \<le> n - k" using assms by (intro dvd_imp_le) auto
  with assms show False by simp
qed

lemma cyc_snoc:
  fixes buf :: "'a list"
  assumes "n < length buf"
  shows "map (\<lambda>k. buf[(h + n) mod length buf := b] ! ((h + k) mod length buf)) [0 ..< Suc n]
         = map (\<lambda>k. buf ! ((h + k) mod length buf)) [0 ..< n] @ [b]"
proof -
  have "0 < length buf" using assms by (cases buf) auto
  then have "(h + n) mod length buf < length buf" by (rule mod_less_divisor)
  then show ?thesis using assms
    by (auto simp add: cyc_neq cyc_neq [THEN not_sym] nth_list_update)
qed

lemma cyc_tl:
  fixes buf :: "'a list"
  assumes "0 < n" "h < length buf"
  shows "map (\<lambda>k. buf ! ((h + k) mod length buf)) [0 ..< n]
         = buf ! h # map (\<lambda>k. buf ! (((h + 1) mod length buf + k) mod length buf)) [0 ..< n - 1]"
proof -
  obtain m where n: "n = Suc m" using assms(1) by (cases n) auto
  have "[0 ..< Suc m] = 0 # map Suc [0 ..< m]"
    by (simp add: upt_conv_Cons map_Suc_upt del: upt_Suc)
  then show ?thesis using assms(2)
    by (simp add: n comp_def mod_add_left_eq del: upt_Suc)
qed


lemma uint_eq_pred_iff:
  fixes w :: byte
  assumes "unat w < N"
  shows "uint w = int N - 1 \<longleftrightarrow> unat w = N - 1"
proof -
  have "uint w = int (unat w)" by simp
  then show ?thesis using assms by arith
qed

lemma unat_byte_succ:
  fixes w :: byte
  assumes "unat w < N" "unat w \<noteq> N - 1" "N \<le> 256"
  shows "unat (w + 1) = unat w + 1"
proof -
  have "unat w + 1 < 256" using assms by arith
  then show ?thesis by (simp add: unat_word_ariths)
qed

lemma succ_mod:
  fixes t N :: nat
  assumes "t < N"
  shows "(t + 1) mod N = (if t = N - 1 then 0 else t + 1)"
  using assms by (auto simp add: mod_if)

lemma mod_shift:
  fixes a h N :: nat
  assumes "h \<le> N"
  shows "(a mod N + N - h) mod N = (a + N - h) mod N"
proof -
  have "a mod N + N - h = a mod N + (N - h)" "a + N - h = a + (N - h)"
    using assms by simp_all
  then show ?thesis by (simp add: mod_add_left_eq)
qed

lemma put_queue_accept:
  assumes wf: "rb_wf cfg s" and room: "rb_count cfg s \<noteq> MAXNUM_SERIALBUFF cfg - 1"
  shows "rb_wf cfg (serial_put_queue cfg b s)"
    and "rb_contents cfg (serial_put_queue cfg b s) = rb_contents cfg s @ [b]"
    and "gbSerialBufferHead (serial_put_queue cfg b s) = gbSerialBufferHead s"
proof -
  let ?N = "MAXNUM_SERIALBUFF cfg"
  let ?h = "unat (gbSerialBufferHead s)"
  let ?t = "unat (gbSerialBufferTail s)"
  let ?s' = "serial_put_queue cfg b s"
  from wf have len: "length (gbSerialBuffer s) = ?N" and h: "?h < ?N" and t: "?t < ?N"
    and N: "?N \<le> 256" by (simp_all add: rb_wf_def)
  have guard: "serial_get_qstate cfg s \<noteq> int ?N - 1"
    using room h by (simp add: qstate_count [OF wf])
  have t': "unat (gbSerialBufferTail ?s') = (?t + 1) mod ?N"
    using guard t N
    by (simp add: serial_put_queue_def Let_def uint_eq_pred_iff [OF t] succ_mod unat_byte_succ)
  have buf': "gbSerialBuffer ?s' = (gbSerialBuffer s)[?t := b]"
    using guard by (simp add: serial_put_queue_def Let_def)
  show hd': "gbSerialBufferHead ?s' = gbSerialBufferHead s"
    using guard by (simp add: serial_put_queue_def Let_def)
  show "rb_wf cfg ?s'"
    using h t N len by (simp add: rb_wf_def t' buf' hd')
  have cnt: "rb_count cfg s < ?N - 1" using room rb_count_less [OF wf] by arith
  have tail_is: "(?h + rb_count cfg s) mod ?N = ?t"
    using h t by (simp add: rb_count_def mod_simps)
  have cnt': "rb_count cfg ?s' = Suc (rb_count cfg s)"
  proof -
    have e: "(?t + 1) + ?N - ?h = (?t + ?N - ?h) + 1"
      using h by arith
    have "rb_count cfg ?s' = ((?t + 1) + ?N - ?h) mod ?N"
      using h by (simp add: rb_count_def t' hd' mod_shift)
    also have "\<dots> = ((?t + ?N - ?h) + 1) mod ?N"
      by (simp only: e)
    also have "\<dots> = (rb_count cfg s + 1) mod ?N"
      by (simp add: rb_count_def mod_simps)
    also have "\<dots> = Suc (rb_count cfg s)" using cnt by simp
    finally show ?thesis .
  qed
  show "rb_contents cfg ?s' = rb_contents cfg s @ [b]"
    unfolding rb_contents_def cnt' hd' buf'
    using cyc_snoc [of "rb_count cfg s" "gbSerialBuffer s" ?h b] cnt
    by (simp add: len tail_is del: upt_Suc)
qed


lemma put_queue_full:
  assumes "rb_wf cfg s" and "rb_count cfg s = MAXNUM_SERIALBUFF cfg - 1"
  shows "serial_put_queue cfg b s = s"
proof -
  have "0 < MAXNUM_SERIALBUFF cfg" using assms(1) by (simp add: rb_wf_def)
  then have "serial_get_qstate cfg s = int (MAXNUM_SERIALBUFF cfg) - 1"
    using assms by (simp add: qstate_count of_nat_diff)
  then show ?thesis by (simp add: serial_put_queue_def)
qed

lemma get_queue_empty:
  "gbSerialBufferHead s = gbSerialBufferTail s \<Longrightarrow> serial_get_queue cfg s = (0xFF, s)"
  by (simp add: serial_get_queue_def)

lemma get_queue_nonempty:
  assumes wf: "rb_wf cfg s" and ne: "gbSerialBufferHead s \<noteq> gbSerialBufferTail s"
  shows "rb_wf cfg (snd (serial_get_queue cfg s))"
    and "rb_contents cfg s
           = fst (serial_get_queue cfg s) # rb_contents cfg (snd (serial_get_queue cfg s))"
    and "gbSerialBufferTail (snd (serial_get_queue cfg s)) = gbSerialBufferTail s"
proof -
  let ?N = "MAXNUM_SERIALBUFF cfg"
  let ?h = "unat (gbSerialBufferHead s)"
  let ?t = "unat (gbSerialBufferTail s)"
  let ?s' = "snd (serial_get_queue cfg s)"
  from wf have len: "length (gbSerialBuffer s) = ?N" and h: "?h < ?N" and t: "?t < ?N"
    and N: "?N \<le> 256" by (simp_all add: rb_wf_def)
  have ht: "?h \<noteq> ?t" using ne by (simp add: word_unat_eq_iff)
  have h': "unat (gbSerialBufferHead ?s') = (?h + 1) mod ?N"
    using ne h N
    by (simp add: serial_get_queue_def Let_def uint_eq_pred_iff [OF h] succ_mod unat_byte_succ)
  have buf': "gbSerialBuffer ?s' = gbSerialBuffer s"
    using ne by (simp add: serial_get_queue_def Let_def)
  show tl': "gbSerialBufferTail ?s' = gbSerialBufferTail s"
    using ne by (simp add: serial_get_queue_def Let_def)
  have data: "fst (serial_get_queue cfg s) = gbSerialBuffer s ! ?h"
    using ne by (simp add: serial_get_queue_def Let_def)
  show wf': "rb_wf cfg ?s'"
    using h t N len by (simp add: rb_wf_def h' buf' tl')
  have pos: "0 < rb_count cfg s" using ne rb_count_0_iff [OF wf] by simp
  have h2: "unat (gbSerialBufferHead ?s') = (if ?h = ?N - 1 then 0 else ?h + 1)"
    using h by (simp only: h' succ_mod)
  have cnt': "rb_count cfg ?s' = rb_count cfg s - 1"
    using h t ht unfolding rb_count_alt [OF wf] rb_count_alt [OF wf'] h2 tl'
    by (simp split: if_splits) arith
  show "rb_contents cfg s = fst (serial_get_queue cfg s) # rb_contents cfg ?s'"
    unfolding rb_contents_def cnt' h' buf' data
    using cyc_tl [OF pos, of ?h "gbSerialBuffer s"] h
    by (simp add: len)
qed

lemma tx_put_queue: "tx (serial_put_queue cfg b s) = tx s"
  by (simp add: serial_put_queue_def Let_def)

lemma put_accepted_iff:
  assumes "rb_wf cfg s"
  shows "put_accepted cfg s \<longleftrightarrow> rb_count cfg s \<noteq> MAXNUM_SERIALBUFF cfg - 1"
proof -
  have "0 < MAXNUM_SERIALBUFF cfg" using assms by (simp add: rb_wf_def)
  then show ?thesis
    unfolding put_accepted_def qstate_count [OF assms] by arith
qed

lemma put_all_room:
  assumes "rb_wf cfg s" and "rb_count cfg s + length bs \<le> MAXNUM_SERIALBUFF cfg - 1"
  shows "rb_wf cfg (put_all cfg bs s) \<and>
         rb_contents cfg (put_all cfg bs s) = rb_contents cfg s @ bs \<and>
         gbSerialBufferHead (put_all cfg bs s) = gbSerialBufferHead s"
  using assms
proof (induction bs arbitrary: s)
  case Nil
  then show ?case by simp
next
  case (Cons b bs)
  have room: "rb_count cfg s \<noteq> MAXNUM_SERIALBUFF cfg - 1" using Cons.prems(2) by simp
  note acc = put_queue_accept [OF Cons.prems(1) room, of b]
  have "rb_count cfg (serial_put_queue cfg b s) = Suc (rb_count cfg s)"
    using acc(2) length_rb_contents [of cfg "serial_put_queue cfg b s"] length_rb_contents [of cfg s]
    by simp
  then have "rb_count cfg (serial_put_queue cfg b s) + length bs \<le> MAXNUM_SERIALBUFF cfg - 1"
    using Cons.prems(2) by simp
  from Cons.IH [OF acc(1) this] show ?case by (simp add: acc)
qed

lemma rb_run_fifo:
  assumes "rb_wf cfg s" and "rb_run cfg ops s = (s', ins, outs)"
  shows "rb_wf cfg s' \<and> rb_contents cfg s @ ins = outs @ rb_contents cfg s'"
  using assms
proof (induction ops arbitrary: s s' ins outs)
  case Nil
  then show ?case by simp
next
  case (Cons x ops)
  show ?case
  proof (cases x)
    case (Put b)
    obtain t i1 o1 where r: "rb_run cfg ops (serial_put_queue cfg b s) = (t, i1, o1)"
      by (cases "rb_run cfg ops (serial_put_queue cfg b s)") auto
    from Cons.prems(2) Put r have eqs: "s' = t" "outs = o1"
      "ins = (if put_accepted cfg s then [b] else []) @ i1" by simp_all
    show ?thesis
    proof (cases "put_accepted cfg s")
      case True
      then have room: "rb_count cfg s \<noteq> MAXNUM_SERIALBUFF cfg - 1"
        using put_accepted_iff [OF Cons.prems(1)] by simp
      note acc = put_queue_accept [OF Cons.prems(1) room, of b]
      from Cons.IH [OF acc(1) r] show ?thesis using True eqs by (simp add: acc(2))
    next
      case False
      then have full: "rb_count cfg s = MAXNUM_SERIALBUFF cfg - 1"
        using put_accepted_iff [OF Cons.prems(1)] by simp
      have same: "serial_put_queue cfg b s = s" by (rule put_queue_full [OF Cons.prems(1) full])
      from Cons.IH [OF Cons.prems(1)] r show ?thesis using False eqs by (simp add: same)
    qed
  next
    case Get
    obtain t i1 o1 where r: "rb_run cfg ops (snd (serial_get_queue cfg s)) = (t, i1, o1)"
      by (cases "rb_run cfg ops (snd (serial_get_queue cfg s))") auto
    from Cons.prems(2) Get r have eqs: "s' = t" "ins = i1"
      "outs = (if get_succeeds s then [fst (serial_get_queue cfg s)] else []) @ o1" by simp_all
    show ?thesis
    proof (cases "get_succeeds s")
      case True
      then have ne: "gbSerialBufferHead s \<noteq> gbSerialBufferTail s" by (simp add: get_succeeds_def)
      note g = get_queue_nonempty [OF Cons.prems(1) ne]
      from Cons.IH [OF g(1) r] show ?thesis using True eqs by (simp add: g(2))
    next
      case False
      then have "serial_get_queue cfg s = (0xFF, s)" by (simp add: get_succeeds_def get_queue_empty)
      with Cons.IH [OF Cons.prems(1)] r show ?thesis using False eqs by simp
    qed
  qed
qed

text \<open>
  C6. From an empty buffer of capacity \<open>N = MAXNUM_SERIALBUFF\<close>, each of \<open>N - 1\<close>
  puts is accepted and the buffer then holds these bytes, \<open>serial_get_qstate\<close> being
  \<open>N - 1\<close>; one more put is ignored and leaves the state as it is. The capacity is at
  most 256, head and tail being 8-bit indices.
\<close>

theorem buffer_capacity:
  assumes "rb_wf cfg s" and "gbSerialBufferHead s = gbSerialBufferTail s"
    and "length bs = MAXNUM_SERIALBUFF cfg - 1"
  shows "(\<forall>k < length bs. put_accepted cfg (put_all cfg (take k bs) s)) \<and>
         rb_contents cfg (put_all cfg bs s) = bs \<and>
         serial_get_qstate cfg (put_all cfg bs s) = int (MAXNUM_SERIALBUFF cfg) - 1 \<and>
         serial_put_queue cfg b (put_all cfg bs s) = put_all cfg bs s"
proof -
  let ?N = "MAXNUM_SERIALBUFF cfg"
  have N: "0 < ?N" using assms(1) by (simp add: rb_wf_def)
  have c0: "rb_count cfg s = 0" using rb_count_0_iff [OF assms(1)] assms(2) by simp
  then have e0: "rb_contents cfg s = []" using length_rb_contents [of cfg s] by simp
  have part: "put_accepted cfg (put_all cfg (take k bs) s)" if "k < length bs" for k
  proof -
    have "rb_count cfg s + length (take k bs) \<le> ?N - 1" using that assms(3) c0 by simp
    from put_all_room [OF assms(1) this]
    have wf: "rb_wf cfg (put_all cfg (take k bs) s)"
      and "rb_contents cfg (put_all cfg (take k bs) s) = take k bs" by (simp_all add: e0)
    then have "rb_count cfg (put_all cfg (take k bs) s) = k"
      using length_rb_contents [of cfg "put_all cfg (take k bs) s"] that by simp
    then show ?thesis using that assms(3) by (simp add: put_accepted_iff [OF wf])
  qed
  have "rb_count cfg s + length bs \<le> ?N - 1" using assms(3) c0 by simp
  from put_all_room [OF assms(1) this]
  have wf: "rb_wf cfg (put_all cfg bs s)"
    and all: "rb_contents cfg (put_all cfg bs s) = bs" by (simp_all add: e0)
  have cnt: "rb_count cfg (put_all cfg bs s) = ?N - 1"
    using all length_rb_contents [of cfg "put_all cfg bs s"] assms(3) by simp
  have q: "serial_get_qstate cfg (put_all cfg bs s) = int ?N - 1"
    using N by (simp add: qstate_count [OF wf] cnt of_nat_diff)
  show ?thesis using part all q put_queue_full [OF wf cnt] by simp
qed

theorem buffer_capacity_witness:
  "rb_wf small small_empty \<and>
   gbSerialBufferHead small_empty = gbSerialBufferTail small_empty \<and>
   length [0x61, 0x62, 0x63 :: byte] = MAXNUM_SERIALBUFF small - 1 \<and>
   rb_contents small (put_all small [0x61, 0x62, 0x63] small_empty) = [0x61, 0x62, 0x63] \<and>
   serial_get_qstate small (put_all small [0x61, 0x62, 0x63] small_empty) = 3 \<and>
   serial_put_queue small 0x64 (put_all small [0x61, 0x62, 0x63] small_empty)
     = put_all small [0x61, 0x62, 0x63] small_empty"
proof -
  have wf: "rb_wf small small_empty"
    by (simp add: rb_wf_def small_def small_empty_def startup_def)
  have e: "gbSerialBufferHead small_empty = gbSerialBufferTail small_empty"
    by (simp add: small_empty_def)
  have l: "length [0x61, 0x62, 0x63 :: byte] = MAXNUM_SERIALBUFF small - 1"
    by (simp add: small_def)
  have N: "int (MAXNUM_SERIALBUFF small) - 1 = 3" by (simp add: small_def)
  show ?thesis using wf e l buffer_capacity [OF wf e l, where b = "0x64"] by (simp add: N)
qed

text \<open>
  C7. For any interleaving of puts and gets, the bytes delivered by the successful gets
  are, in order, the first of the bytes waiting at the start followed by the bytes of the
  accepted puts; the rest is what the buffer holds at the end; and \<open>serial_get_qstate\<close>
  has changed by the number of accepted puts minus the number of successful gets, however
  often head and tail have wrapped.
\<close>

theorem fifo_order_and_count:
  assumes "rb_wf cfg s" and "rb_run cfg ops s = (s', ins, outs)"
  shows "outs = take (length outs) (rb_contents cfg s @ ins) \<and>
         rb_contents cfg s' = drop (length outs) (rb_contents cfg s @ ins) \<and>
         serial_get_qstate cfg s'
           = serial_get_qstate cfg s + int (length ins) - int (length outs)"
proof -
  from rb_run_fifo [OF assms]
  have wf': "rb_wf cfg s'" and eq: "rb_contents cfg s @ ins = outs @ rb_contents cfg s'"
    by simp_all
  have "length (rb_contents cfg s @ ins) = length (outs @ rb_contents cfg s')"
    by (simp only: eq)
  then have "rb_count cfg s + length ins = length outs + rb_count cfg s'"
    by (simp add: length_rb_contents)
  then have "serial_get_qstate cfg s'
               = serial_get_qstate cfg s + int (length ins) - int (length outs)"
    unfolding qstate_count [OF assms(1)] qstate_count [OF wf'] by arith
  then show ?thesis by (simp add: eq)
qed

theorem fifo_order_and_count_witness:
  "rb_wf small small_empty \<and>
   snd (rb_run small small_ops small_empty) = ([1, 2, 3, 5, 6, 7, 8, 9], [1, 2, 3, 5, 6, 7]) \<and>
   rb_contents small (fst (rb_run small small_ops small_empty)) = [8, 9] \<and>
   serial_get_qstate small (fst (rb_run small small_ops small_empty)) = 2"
proof -
  have wf: "rb_wf small small_empty"
    by (simp add: rb_wf_def small_def small_empty_def startup_def)
  have sn: "snd (rb_run small small_ops small_empty)
               = ([1, 2, 3, 5, 6, 7, 8, 9], [1, 2, 3, 5, 6, 7])"
    by code_simp
  have run: "rb_run small small_ops small_empty
     = (fst (rb_run small small_ops small_empty), [1, 2, 3, 5, 6, 7, 8, 9], [1, 2, 3, 5, 6, 7])"
    using sn by (simp add: prod_eq_iff)
  have q0: "serial_get_qstate small small_empty = 0" "rb_contents small small_empty = []"
    by (simp_all add: serial_get_qstate_def small_empty_def rb_contents_def rb_count_def small_def)
  show ?thesis using wf sn fifo_order_and_count [OF wf run] by (simp add: q0)
qed

text \<open>
  C8. A get from an empty buffer (head equal to tail) returns \<open>0xFF\<close> and leaves
  the whole state, with head, tail and the stored bytes, as it was.
\<close>

theorem get_from_empty_buffer:
  "gbSerialBufferHead s = gbSerialBufferTail s \<Longrightarrow> serial_get_queue cfg s = (0xFF, s)"
  by (simp add: serial_get_queue_def)

theorem get_from_empty_buffer_witness:
  "gbSerialBufferHead (serial_init (startup cm510)) = gbSerialBufferTail (serial_init (startup cm510))
   \<and> serial_get_queue cm510 (serial_init (startup cm510)) = (0xFF, serial_init (startup cm510))"
proof -
  have e: "gbSerialBufferHead (serial_init (startup cm510))
             = gbSerialBufferTail (serial_init (startup cm510))"
    by (simp add: serial_init_def startup_def)
  show ?thesis using e get_from_empty_buffer [OF e, of cm510] by simp
qed

section \<open>Properties of the receive interrupt\<close>

text \<open>
  C5, as the code has it. When the byte received is the carriage return, the interrupt
  writes three bytes to the transmitter: carriage return, line feed, and a blank.
\<close>

theorem terminator_echo:
  "tx (USART1_RX_vect cfg 0x0D s) = tx s @ [0x0D, 0x0A, 0x20]"
  by (simp add: USART1_RX_vect_def std_putchar_def serial_write_def tx_put_queue)

text \<open>The echo of the carriage return is not the two bytes CR, LF alone.\<close>

theorem terminator_echo_counterexample:
  "tx (USART1_RX_vect cm510 0x0D (serial_init (startup cm510)))
     \<noteq> tx (serial_init (startup cm510)) @ [0x0D, 0x0A]"
  by (simp add: USART1_RX_vect_def std_putchar_def serial_write_def tx_put_queue)

section \<open>Properties of the command dispatcher\<close>

lemma byte_at_tl: "byte_at (tl xs) k = byte_at xs (Suc k)"
  by (cases xs) (simp_all add: byte_at_def)

lemma get_queue_abs_all:
  assumes "rb_wf cfg s"
  shows "fst (serial_get_queue cfg s) = byte_at (rb_contents cfg s) 0 \<and>
         rb_wf cfg (snd (serial_get_queue cfg s)) \<and>
         rb_contents cfg (snd (serial_get_queue cfg s)) = tl (rb_contents cfg s)"
proof (cases "gbSerialBufferHead s = gbSerialBufferTail s")
  case True
  then have "rb_count cfg s = 0" using rb_count_0_iff [OF assms] by simp
  then have e: "rb_contents cfg s = []" using length_rb_contents [of cfg s] by simp
  show ?thesis using assms by (simp add: get_queue_empty [OF True] e byte_at_def)
next
  case False
  note g = get_queue_nonempty [OF assms False]
  show ?thesis using g(1) by (simp add: g(2) byte_at_def)
qed

lemma get_queue_abs:
  assumes "rb_wf cfg s"
  shows "fst (serial_get_queue cfg s) = byte_at (rb_contents cfg s) 0"
    and "rb_wf cfg (snd (serial_get_queue cfg s))"
    and "rb_contents cfg (snd (serial_get_queue cfg s)) = tl (rb_contents cfg s)"
  using get_queue_abs_all [OF assms] by simp_all

lemma get_queue_frame:
  "snd (serial_get_queue cfg s)
     = s\<lparr>gbSerialBufferHead := gbSerialBufferHead (snd (serial_get_queue cfg s))\<rparr>"
  by (simp add: serial_get_queue_def Let_def)

lemma get_command_token:
  assumes "rb_wf cfg s"
  shows "fst (get_command cfg s) =
           (fold_case (byte_at (rb_contents cfg s) 0), pad_blank (byte_at (rb_contents cfg s) 1),
            pad_blank (byte_at (rb_contents cfg s) 2), pad_blank (byte_at (rb_contents cfg s) 3))"
proof -
  let ?s1 = "snd (serial_get_queue cfg s)"
  let ?s2 = "snd (serial_get_queue cfg ?s1)"
  let ?s3 = "snd (serial_get_queue cfg ?s2)"
  note a1 = get_queue_abs [OF assms]
  note a2 = get_queue_abs [OF a1(2)]
  note a3 = get_queue_abs [OF a2(2)]
  note a4 = get_queue_abs [OF a3(2)]
  have b: "fst (serial_get_queue cfg ?s1) = byte_at (rb_contents cfg s) 1"
    "fst (serial_get_queue cfg ?s2) = byte_at (rb_contents cfg s) 2"
    "fst (serial_get_queue cfg ?s3) = byte_at (rb_contents cfg s) 3"
    by (simp_all add: a1 a2 a3 a4 byte_at_tl numeral_2_eq_2 numeral_3_eq_3)
  show ?thesis
    by (simp add: get_command_def Let_def case_prod_beta a1(1) b fold_case_def pad_blank_def)
qed

lemma get_command_frame:
  "snd (get_command cfg s)
     = s\<lparr>gbSerialBufferHead := gbSerialBufferHead (snd (get_command cfg s))\<rparr>"
proof -
  have *: "t = s\<lparr>gbSerialBufferHead := gbSerialBufferHead t\<rparr>
     \<Longrightarrow> snd (serial_get_queue cfg t)
           = s\<lparr>gbSerialBufferHead := gbSerialBufferHead (snd (serial_get_queue cfg t))\<rparr>" for t
    using get_queue_frame [of cfg t]
    by (metis state.surjective state.update_convs(2))
  let ?s1 = "snd (serial_get_queue cfg s)"
  let ?s2 = "snd (serial_get_queue cfg ?s1)"
  let ?s3 = "snd (serial_get_queue cfg ?s2)"
  let ?s4 = "snd (serial_get_queue cfg ?s3)"
  let ?s5 = "snd (serial_get_queue cfg ?s4)"
  have "?s5 = s\<lparr>gbSerialBufferHead := gbSerialBufferHead ?s5\<rparr>"
    by (intro * get_queue_frame)
  moreover have "snd (get_command cfg s) = ?s5"
    by (simp add: get_command_def Let_def case_prod_beta)
  ultimately show ?thesis by simp
qed


lemma match_loop_no_match:
  assumes "\<And>j. i \<le> j \<Longrightarrow> j < NUMBER_OF_COMMANDS cfg \<Longrightarrow>
             \<not> strcmp_equal (bytes_of (COMMANDSTR_POINTER ! j)) command"
  shows "match_loop cfg command i s =
           (if i < NUMBER_OF_COMMANDS cfg then s\<lparr>bioloid_command := COMMAND_NOT_FOUND cfg\<rparr>
            else s)"
  using assms
proof (induction cfg command i s rule: match_loop.induct)
  case (1 cfg command i s)
  show ?case
  proof (cases "i < NUMBER_OF_COMMANDS cfg")
    case False
    then show ?thesis by (subst match_loop.simps) simp
  next
    case True
    have nm: "\<not> strcmp_equal (bytes_of (COMMANDSTR_POINTER ! i)) command"
      using "1.prems" [of i] True by simp
    have rest: "match_loop cfg command (i + 1) t =
                  (if i + 1 < NUMBER_OF_COMMANDS cfg
                   then t\<lparr>bioloid_command := COMMAND_NOT_FOUND cfg\<rparr> else t)"
      if "t = (if i = NUMBER_OF_COMMANDS cfg - 1
               then s\<lparr>bioloid_command := COMMAND_NOT_FOUND cfg\<rparr> else s)" for t
      unfolding that using "1.prems" by (intro "1.IH" [OF True nm]) simp_all
    show ?thesis
      using True nm rest [OF refl]
      by (subst match_loop.simps) (auto simp add: not_less)
  qed
qed

lemma match_loop_first_match:
  assumes "i \<le> k" and "k < NUMBER_OF_COMMANDS cfg"
    and "strcmp_equal (bytes_of (COMMANDSTR_POINTER ! k)) command"
    and "\<And>j. i \<le> j \<Longrightarrow> j < k \<Longrightarrow>
             \<not> strcmp_equal (bytes_of (COMMANDSTR_POINTER ! j)) command"
  shows "match_loop cfg command i s =
           s\<lparr>last_bioloid_command := bioloid_command s, bioloid_command := of_nat k\<rparr>"
  using assms
proof (induction cfg command i s rule: match_loop.induct)
  case (1 cfg command i s)
  have lt: "i < NUMBER_OF_COMMANDS cfg" using "1.prems"(1,2) by simp
  show ?case
  proof (cases "i = k")
    case True
    then show ?thesis using lt "1.prems"(3) by (subst match_loop.simps) simp
  next
    case False
    then have ik: "i < k" using "1.prems"(1) by simp
    have nm: "\<not> strcmp_equal (bytes_of (COMMANDSTR_POINTER ! i)) command"
      using "1.prems"(4) [of i] ik by simp
    have notlast: "i \<noteq> NUMBER_OF_COMMANDS cfg - 1" using ik "1.prems"(2) by simp
    have "match_loop cfg command (i + 1) s =
            s\<lparr>last_bioloid_command := bioloid_command s, bioloid_command := of_nat k\<rparr>"
      using "1.IH" [OF lt nm, of ] notlast ik "1.prems"(2,3,4) by simp
    then show ?thesis using lt nm notlast by (subst match_loop.simps) simp
  qed
qed

lemma put_string_fields:
  "bioloid_command (put_string cs s) = bioloid_command s \<and>
   last_bioloid_command (put_string cs s) = last_bioloid_command s \<and>
   current_motion_page (put_string cs s) = current_motion_page s \<and>
   last_motion_page (put_string cs s) = last_motion_page s \<and>
   flag_receive_ready (put_string cs s) = flag_receive_ready s"
  by (induction cs arbitrary: s) (simp_all add: std_putchar_def serial_write_def)

lemma acknowledge_fields:
  "bioloid_command (acknowledge cfg c1 c2 c3 c4 s) = bioloid_command s"
  "last_bioloid_command (acknowledge cfg c1 c2 c3 c4 s) = last_bioloid_command s"
  "current_motion_page (acknowledge cfg c1 c2 c3 c4 s) = current_motion_page s"
  "last_motion_page (acknowledge cfg c1 c2 c3 c4 s) = last_motion_page s"
  "flag_receive_ready (acknowledge cfg c1 c2 c3 c4 s) = flag_receive_ready s"
  unfolding acknowledge_def
  by (simp_all only: put_string_fields simp_thms split: if_split)

lemma get_command_fields:
  "bioloid_command (snd (get_command cfg s)) = bioloid_command s"
  "last_bioloid_command (snd (get_command cfg s)) = last_bioloid_command s"
  "current_motion_page (snd (get_command cfg s)) = current_motion_page s"
  "last_motion_page (snd (get_command cfg s)) = last_motion_page s"
  by (subst get_command_frame, simp, subst get_command_frame, simp,
      subst get_command_frame, simp, subst get_command_frame, simp)

lemma std_putchar_rb:
  "rb_wf cfg (std_putchar c s) = rb_wf cfg s"
  "rb_contents cfg (std_putchar c s) = rb_contents cfg s"
  "rb_count cfg (std_putchar c s) = rb_count cfg s"
  by (simp_all add: std_putchar_def serial_write_def rb_wf_def rb_contents_def rb_count_def)

lemma std_putchar_fields:
  "bioloid_command (std_putchar c s) = bioloid_command s"
  "last_bioloid_command (std_putchar c s) = last_bioloid_command s"
  "current_motion_page (std_putchar c s) = current_motion_page s"
  "last_motion_page (std_putchar c s) = last_motion_page s"
  "flag_receive_ready (std_putchar c s) = flag_receive_ready s"
  by (simp_all add: std_putchar_def serial_write_def)

lemma put_queue_fields:
  "bioloid_command (serial_put_queue cfg b s) = bioloid_command s"
  "last_bioloid_command (serial_put_queue cfg b s) = last_bioloid_command s"
  "current_motion_page (serial_put_queue cfg b s) = current_motion_page s"
  "last_motion_page (serial_put_queue cfg b s) = last_motion_page s"
  "flag_receive_ready (serial_put_queue cfg b s) = flag_receive_ready s"
  by (simp_all add: serial_put_queue_def Let_def)

lemma flag_update_rb:
  "rb_wf cfg (s\<lparr>flag_receive_ready := f\<rparr>) = rb_wf cfg s"
  "rb_contents cfg (s\<lparr>flag_receive_ready := f\<rparr>) = rb_contents cfg s"
  "rb_count cfg (s\<lparr>flag_receive_ready := f\<rparr>) = rb_count cfg s"
  by (simp_all add: rb_wf_def rb_contents_def rb_count_def)

lemma receive_frame:
  assumes "rb_wf cfg s" and "0x0D \<notin> set frame"
    and "rb_count cfg s + length frame + 1 \<le> MAXNUM_SERIALBUFF cfg - 1"
  shows "rb_wf cfg (receive cfg (frame @ [0x0D]) s) \<and>
         rb_contents cfg (receive cfg (frame @ [0x0D]) s) = rb_contents cfg s @ frame @ [0xFF] \<and>
         flag_receive_ready (receive cfg (frame @ [0x0D]) s) = 1 \<and>
         bioloid_command (receive cfg (frame @ [0x0D]) s) = bioloid_command s \<and>
         last_bioloid_command (receive cfg (frame @ [0x0D]) s) = last_bioloid_command s \<and>
         current_motion_page (receive cfg (frame @ [0x0D]) s) = current_motion_page s \<and>
         last_motion_page (receive cfg (frame @ [0x0D]) s) = last_motion_page s"
  using assms
proof (induction frame arbitrary: s)
  case Nil
  have room: "rb_count cfg (s\<lparr>flag_receive_ready := 1\<rparr>) \<noteq> MAXNUM_SERIALBUFF cfg - 1"
    using Nil.prems(3) by (simp add: flag_update_rb)
  have wf1: "rb_wf cfg (s\<lparr>flag_receive_ready := 1\<rparr>)"
    using Nil.prems(1) by (simp add: flag_update_rb)
  note acc = put_queue_accept [OF wf1 room, of "0xFF"]
  show ?case
    using acc(1,2)
    by (simp add: USART1_RX_vect_def Let_def std_putchar_rb std_putchar_fields
        put_queue_fields flag_update_rb)
next
  case (Cons c frame)
  have c: "c \<noteq> 0x0D" using Cons.prems(2) by auto
  have room: "rb_count cfg s \<noteq> MAXNUM_SERIALBUFF cfg - 1" using Cons.prems(3) by simp
  note acc = put_queue_accept [OF Cons.prems(1) room, of c]
  let ?t = "USART1_RX_vect cfg c s"
  have t: "rb_wf cfg ?t" "rb_contents cfg ?t = rb_contents cfg s @ [c]"
    "bioloid_command ?t = bioloid_command s" "last_bioloid_command ?t = last_bioloid_command s"
    "current_motion_page ?t = current_motion_page s" "last_motion_page ?t = last_motion_page s"
    using c acc(1,2)
    by (simp_all add: USART1_RX_vect_def Let_def std_putchar_rb std_putchar_fields put_queue_fields)
  have "rb_count cfg ?t = Suc (rb_count cfg s)"
    using t(2) length_rb_contents [of cfg ?t] length_rb_contents [of cfg s] by simp
  then have room': "rb_count cfg ?t + length frame + 1 \<le> MAXNUM_SERIALBUFF cfg - 1"
    using Cons.prems(3) by simp
  have nocr: "0x0D \<notin> set frame" using Cons.prems(2) by simp
  from Cons.IH [OF t(1) nocr room'] show ?case by (simp add: t)
qed

lemma SerialReceiveCommand_unfold:
  assumes "flag_receive_ready s \<noteq> 0" and "fst (get_command cfg s) = (c1, c2, c3, c4)"
  shows "SerialReceiveCommand cfg s =
           acknowledge cfg c1 c2 c3 c4
             ((motion_page_case cfg c1 c2 c3 c4
                 (match_loop cfg [c1, c2, c3, c4] 0 (snd (get_command cfg s))))
              \<lparr>flag_receive_ready := 0\<rparr>)"
proof -
  show ?thesis using assms(1)
    by (simp add: SerialReceiveCommand_def Let_def case_prod_beta assms(2))
qed

lemma table_match_iff:
  "table_match cfg command \<longleftrightarrow>
     (\<exists>j < NUMBER_OF_COMMANDS cfg. strcmp_equal (bytes_of (COMMANDSTR_POINTER ! j)) command)"
  by (auto simp add: table_match_def)

lemma dispatch_no_match:
  assumes "flag_receive_ready s \<noteq> 0" and "fst (get_command cfg s) = (c1, c2, c3, c4)"
    and "\<not> table_match cfg [c1, c2, c3, c4]" and "0 < NUMBER_OF_COMMANDS cfg"
  shows "bioloid_command (SerialReceiveCommand cfg s) =
           (if c1 = 0x4D \<and> is_digit c2 then COMMAND_MOTIONPAGE cfg else COMMAND_NOT_FOUND cfg)"
    and "last_bioloid_command (SerialReceiveCommand cfg s) = last_bioloid_command s"
    and "current_motion_page (SerialReceiveCommand cfg s) =
           (if c1 = 0x4D \<and> is_digit c2 then
              (let p2 = c2 - 48;
                   p3 = (if is_digit c3 then p2 * 10 + (c3 - 48) else p2)
               in if is_digit c4 then p3 * 10 + (c4 - 48) else p3)
            else current_motion_page s)"
    and "last_motion_page (SerialReceiveCommand cfg s) =
           (if c1 = 0x4D \<and> is_digit c2 then current_motion_page s else last_motion_page s)"
proof -
  let ?s1 = "snd (get_command cfg s)"
  have ml: "match_loop cfg [c1, c2, c3, c4] 0 ?s1 = ?s1\<lparr>bioloid_command := COMMAND_NOT_FOUND cfg\<rparr>"
    using assms(3,4) by (subst match_loop_no_match) (auto simp add: table_match_iff)
  note u = SerialReceiveCommand_unfold [OF assms(1,2)]
  show "bioloid_command (SerialReceiveCommand cfg s) =
           (if c1 = 0x4D \<and> is_digit c2 then COMMAND_MOTIONPAGE cfg else COMMAND_NOT_FOUND cfg)"
    by (simp add: u ml acknowledge_fields motion_page_case_def Let_def is_digit_def)
  show "last_bioloid_command (SerialReceiveCommand cfg s) = last_bioloid_command s"
    by (simp add: u ml acknowledge_fields motion_page_case_def Let_def get_command_fields)
  show "current_motion_page (SerialReceiveCommand cfg s) =
           (if c1 = 0x4D \<and> is_digit c2 then
              (let p2 = c2 - 48;
                   p3 = (if is_digit c3 then p2 * 10 + (c3 - 48) else p2)
               in if is_digit c4 then p3 * 10 + (c4 - 48) else p3)
            else current_motion_page s)"
    by (simp add: u ml acknowledge_fields motion_page_case_def Let_def is_digit_def
        get_command_fields)
  show "last_motion_page (SerialReceiveCommand cfg s) =
           (if c1 = 0x4D \<and> is_digit c2 then current_motion_page s else last_motion_page s)"
    by (simp add: u ml acknowledge_fields motion_page_case_def Let_def is_digit_def
        get_command_fields)
qed

lemma dispatch_match:
  assumes "flag_receive_ready s \<noteq> 0" and "fst (get_command cfg s) = (c1, c2, c3, c4)"
    and "k < NUMBER_OF_COMMANDS cfg"
    and "strcmp_equal (bytes_of (COMMANDSTR_POINTER ! k)) [c1, c2, c3, c4]"
    and "\<And>j. j < k \<Longrightarrow> \<not> strcmp_equal (bytes_of (COMMANDSTR_POINTER ! j)) [c1, c2, c3, c4]"
  shows "last_bioloid_command (SerialReceiveCommand cfg s) = bioloid_command s"
    and "\<not> (c1 = 0x4D \<and> is_digit c2) \<Longrightarrow>
           bioloid_command (SerialReceiveCommand cfg s) = of_nat k \<and>
           current_motion_page (SerialReceiveCommand cfg s) = current_motion_page s \<and>
           last_motion_page (SerialReceiveCommand cfg s) = last_motion_page s"
proof -
  let ?s1 = "snd (get_command cfg s)"
  have ml: "match_loop cfg [c1, c2, c3, c4] 0 ?s1 =
              ?s1\<lparr>last_bioloid_command := bioloid_command ?s1, bioloid_command := of_nat k\<rparr>"
    using assms(3,4,5) by (intro match_loop_first_match) simp_all
  note u = SerialReceiveCommand_unfold [OF assms(1,2)]
  show "last_bioloid_command (SerialReceiveCommand cfg s) = bioloid_command s"
    by (simp add: u ml acknowledge_fields motion_page_case_def Let_def get_command_fields)
  show "bioloid_command (SerialReceiveCommand cfg s) = of_nat k \<and>
        current_motion_page (SerialReceiveCommand cfg s) = current_motion_page s \<and>
        last_motion_page (SerialReceiveCommand cfg s) = last_motion_page s"
    if "\<not> (c1 = 0x4D \<and> is_digit c2)"
    using that
    by (auto simp add: u ml acknowledge_fields motion_page_case_def Let_def is_digit_def
        get_command_fields)
qed

lemma length_COMMANDSTR_POINTER: "length COMMANDSTR_POINTER = 20"
  by (simp add: COMMANDSTR_POINTER_def)

lemma no_entry_M_nonblank:
  assumes "c2 \<noteq> 0" and "c2 \<noteq> 0x20"
  shows "\<forall>e \<in> set COMMANDSTR_POINTER. \<not> strcmp_equal (bytes_of e) [0x4D, c2, c3, c4]"
  using assms by (simp add: COMMANDSTR_POINTER_def strcmp_equal_def bytes_of_def)

lemma table_no_match_M:
  assumes "c2 \<noteq> 0" and "c2 \<noteq> 0x20" and "NUMBER_OF_COMMANDS cfg \<le> 20"
  shows "\<not> table_match cfg [0x4D, c2, c3, c4]"
proof
  assume "table_match cfg [0x4D, c2, c3, c4]"
  then obtain j where j: "j < NUMBER_OF_COMMANDS cfg"
    and m: "strcmp_equal (bytes_of (COMMANDSTR_POINTER ! j)) [0x4D, c2, c3, c4]"
    by (auto simp add: table_match_iff)
  have "COMMANDSTR_POINTER ! j \<in> set COMMANDSTR_POINTER"
    using j assms(3) by (intro nth_mem) (simp add: length_COMMANDSTR_POINTER)
  with no_entry_M_nonblank [OF assms(1,2)] m show False by blast
qed

lemma no_entry_before_M:
  "\<forall>e \<in> set (take 19 COMMANDSTR_POINTER). \<not> strcmp_equal (bytes_of e) (0x4D # cs)"
  by (simp add: COMMANDSTR_POINTER_def strcmp_equal_def bytes_of_def)

lemma no_match_before_M:
  assumes "j < 19"
  shows "\<not> strcmp_equal (bytes_of (COMMANDSTR_POINTER ! j)) (0x4D # cs)"
proof -
  have "take 19 COMMANDSTR_POINTER ! j \<in> set (take 19 COMMANDSTR_POINTER)"
    using assms by (intro nth_mem) (simp add: length_COMMANDSTR_POINTER)
  then have "COMMANDSTR_POINTER ! j \<in> set (take 19 COMMANDSTR_POINTER)"
    using assms by simp
  with no_entry_before_M show ?thesis by blast
qed

lemma entry_M: "strcmp_equal (bytes_of (COMMANDSTR_POINTER ! 19)) [0x4D, 0x20, 0x20, 0x20]"
  by (simp add: COMMANDSTR_POINTER_def strcmp_equal_def bytes_of_def)

lemma digit_facts:
  assumes "is_digit d"
  shows "fold_case d = d" "pad_blank d = d" "d \<noteq> 0" "d \<noteq> 0x20" "d \<noteq> 0x0D"
    "unat d - 48 < 10" "48 \<le> unat d" "(of_nat (unat d - 48) :: byte) = d - 48"
proof -
  have r: "48 \<le> unat d" "unat d \<le> 57"
    using assms by (simp_all add: is_digit_def word_le_nat_alt)
  show "48 \<le> unat d" by (rule r(1))
  show "unat d - 48 < 10" using r by arith
  have nl: "\<not> (0x61 \<le> d)" using r by (simp add: word_le_nat_alt)
  show fc: "fold_case d = d" using nl by (simp add: fold_case_def)
  have "unat d \<noteq> 255" using r by arith
  then have "d \<noteq> 0xFF" by auto
  then show "pad_blank d = d" by (simp add: pad_blank_def fc)
  have "unat d \<noteq> 0" "unat d \<noteq> 32" "unat d \<noteq> 13" using r by arith+
  then show "d \<noteq> 0" "d \<noteq> 0x20" "d \<noteq> 0x0D" by auto
  show "(of_nat (unat d - 48) :: byte) = d - 48"
    using r(1) by (simp add: of_nat_diff)
qed


lemma dispatch_after_receive:
  assumes "rb_wf cfg s" and "gbSerialBufferHead s = gbSerialBufferTail s"
    and "0x0D \<notin> set frame" and "length frame + 2 \<le> MAXNUM_SERIALBUFF cfg"
  shows "flag_receive_ready (receive cfg (frame @ [0x0D]) s) \<noteq> 0"
    and "fst (get_command cfg (receive cfg (frame @ [0x0D]) s)) =
           (fold_case (byte_at (frame @ [0xFF]) 0), pad_blank (byte_at (frame @ [0xFF]) 1),
            pad_blank (byte_at (frame @ [0xFF]) 2), pad_blank (byte_at (frame @ [0xFF]) 3))"
    and "bioloid_command (receive cfg (frame @ [0x0D]) s) = bioloid_command s"
    and "last_bioloid_command (receive cfg (frame @ [0x0D]) s) = last_bioloid_command s"
    and "current_motion_page (receive cfg (frame @ [0x0D]) s) = current_motion_page s"
    and "last_motion_page (receive cfg (frame @ [0x0D]) s) = last_motion_page s"
proof -
  have c0: "rb_count cfg s = 0" using rb_count_0_iff [OF assms(1)] assms(2) by simp
  then have e0: "rb_contents cfg s = []" using length_rb_contents [of cfg s] by simp
  have room: "rb_count cfg s + length frame + 1 \<le> MAXNUM_SERIALBUFF cfg - 1"
    using c0 assms(4) by simp
  note r = receive_frame [OF assms(1,3) room]
  from r have wf: "rb_wf cfg (receive cfg (frame @ [0x0D]) s)"
    and con: "rb_contents cfg (receive cfg (frame @ [0x0D]) s) = frame @ [0xFF]"
    by (simp_all add: e0)
  show "flag_receive_ready (receive cfg (frame @ [0x0D]) s) \<noteq> 0" using r by simp
  show "fst (get_command cfg (receive cfg (frame @ [0x0D]) s)) =
           (fold_case (byte_at (frame @ [0xFF]) 0), pad_blank (byte_at (frame @ [0xFF]) 1),
            pad_blank (byte_at (frame @ [0xFF]) 2), pad_blank (byte_at (frame @ [0xFF]) 3))"
    by (simp only: get_command_token [OF wf] con)
  show "bioloid_command (receive cfg (frame @ [0x0D]) s) = bioloid_command s"
    "last_bioloid_command (receive cfg (frame @ [0x0D]) s) = last_bioloid_command s"
    "current_motion_page (receive cfg (frame @ [0x0D]) s) = current_motion_page s"
    "last_motion_page (receive cfg (frame @ [0x0D]) s) = last_motion_page s"
    using r by simp_all
qed

lemma blank_facts:
  "fold_case 0x4D = 0x4D" "pad_blank 0xFF = 0x20" "\<not> is_digit 0x20" "pad_blank 0x58 = 0x58"
  "\<not> is_digit 0x58"
  by (simp_all add: fold_case_def pad_blank_def is_digit_def)

lemma page_values:
  assumes "is_digit a"
  shows "a - 48 = (of_nat (decimal_value [a]) :: byte)"
    and "is_digit b \<Longrightarrow> (a - 48) * 10 + (b - 48) = (of_nat (decimal_value [a, b]) :: byte)"
    and "is_digit b \<Longrightarrow> is_digit c \<Longrightarrow>
           ((a - 48) * 10 + (b - 48)) * 10 + (c - 48) = (of_nat (decimal_value [a, b, c]) :: byte)"
proof -
  note da = digit_facts(8) [OF assms]
  show "a - 48 = (of_nat (decimal_value [a]) :: byte)"
    by (simp add: decimal_value_def da)
  show "(a - 48) * 10 + (b - 48) = (of_nat (decimal_value [a, b]) :: byte)" if "is_digit b"
  proof -
    note db = digit_facts(8) [OF that]
    have "(of_nat (decimal_value [a, b]) :: byte)
            = 10 * of_nat (unat a - 48) + of_nat (unat b - 48)"
      by (simp add: decimal_value_def)
    then show ?thesis by (simp only: da db mult.commute)
  qed
  show "((a - 48) * 10 + (b - 48)) * 10 + (c - 48) = (of_nat (decimal_value [a, b, c]) :: byte)"
    if "is_digit b" "is_digit c"
  proof -
    note db = digit_facts(8) [OF that(1)] and dc = digit_facts(8) [OF that(2)]
    have "(of_nat (decimal_value [a, b, c]) :: byte)
            = 10 * (10 * of_nat (unat a - 48) + of_nat (unat b - 48)) + of_nat (unat c - 48)"
      by (simp add: decimal_value_def)
    then show ?thesis by (simp only: da db dc mult.commute)
  qed
qed

lemma motion_frame:
  assumes "rb_wf cfg s" and "gbSerialBufferHead s = gbSerialBufferTail s"
    and "6 \<le> MAXNUM_SERIALBUFF cfg"
    and "0 < NUMBER_OF_COMMANDS cfg" and "NUMBER_OF_COMMANDS cfg \<le> 20"
    and "ds \<noteq> []" and "length ds \<le> 3" and "\<forall>d \<in> set ds. is_digit d"
  shows "bioloid_command (SerialReceiveCommand cfg (receive cfg ((0x4D # ds) @ [0x0D]) s))
           = COMMAND_MOTIONPAGE cfg \<and>
         current_motion_page (SerialReceiveCommand cfg (receive cfg ((0x4D # ds) @ [0x0D]) s))
           = of_nat (decimal_value ds) \<and>
         last_motion_page (SerialReceiveCommand cfg (receive cfg ((0x4D # ds) @ [0x0D]) s))
           = current_motion_page s \<and>
         last_bioloid_command (SerialReceiveCommand cfg (receive cfg ((0x4D # ds) @ [0x0D]) s))
           = last_bioloid_command s"
proof -
  note [simp del] = receive.simps
  let ?r = "receive cfg ((0x4D # ds) @ [0x0D]) s"
  obtain a rest where ds: "ds = a # rest" using assms(6) by (cases ds) auto
  have a: "is_digit a" using assms(8) ds by simp
  have nocr: "0x0D \<notin> set (0x4D # ds)"
    using assms(8) digit_facts(5) by auto
  have len: "length (0x4D # ds) + 2 \<le> MAXNUM_SERIALBUFF cfg"
    using assms(3,7) by simp
  note d = dispatch_after_receive [OF assms(1,2) nocr len]
  have nm: "\<not> table_match cfg [0x4D, a, c3, c4]" for c3 c4
    using table_no_match_M [OF digit_facts(3,4) [OF a] assms(5)] .
  consider (one) "rest = []" | (two) b where "rest = [b]" | (three) b c where "rest = [b, c]"
    using assms(7) ds by (cases rest; cases "tl rest"; cases "tl (tl rest)") auto
  then show ?thesis
  proof cases
    case one
    note e = d [unfolded ds one append.simps]
    have tok: "fst (get_command cfg (receive cfg [0x4D, a, 0x0D] s)) = (0x4D, a, 0x20, 0x20)"
      by (subst e(2)) (simp add: byte_at_def blank_facts digit_facts [OF a])
    note r = dispatch_no_match [OF e(1) tok nm assms(4)]
    have p: "current_motion_page (SerialReceiveCommand cfg (receive cfg [0x4D, a, 0x0D] s))
               = a - 48"
      using r(3) by (simp add: a blank_facts)
    have q: "bioloid_command (SerialReceiveCommand cfg (receive cfg [0x4D, a, 0x0D] s))
               = COMMAND_MOTIONPAGE cfg"
      "last_motion_page (SerialReceiveCommand cfg (receive cfg [0x4D, a, 0x0D] s))
               = current_motion_page s"
      "last_bioloid_command (SerialReceiveCommand cfg (receive cfg [0x4D, a, 0x0D] s))
               = last_bioloid_command s"
      using r(1,2,4) by (simp_all add: e a)
    show ?thesis unfolding ds one append.simps
      by (simp only: p q page_values(1) [OF a] simp_thms)
  next
    case two
    have b: "is_digit b" using assms(8) ds two by simp
    note e = d [unfolded ds two append.simps]
    have tok: "fst (get_command cfg (receive cfg [0x4D, a, b, 0x0D] s)) = (0x4D, a, b, 0x20)"
      by (subst e(2))
        (simp add: byte_at_def blank_facts digit_facts [OF a] digit_facts [OF b])
    note r = dispatch_no_match [OF e(1) tok nm assms(4)]
    have p: "current_motion_page (SerialReceiveCommand cfg (receive cfg [0x4D, a, b, 0x0D] s))
               = (a - 48) * 10 + (b - 48)"
      using r(3) by (simp add: a b blank_facts)
    have q: "bioloid_command (SerialReceiveCommand cfg (receive cfg [0x4D, a, b, 0x0D] s))
               = COMMAND_MOTIONPAGE cfg"
      "last_motion_page (SerialReceiveCommand cfg (receive cfg [0x4D, a, b, 0x0D] s))
               = current_motion_page s"
      "last_bioloid_command (SerialReceiveCommand cfg (receive cfg [0x4D, a, b, 0x0D] s))
               = last_bioloid_command s"
      using r(1,2,4) by (simp_all add: e a)
    show ?thesis unfolding ds two append.simps
      by (simp only: p q page_values(2) [OF a b] simp_thms)
  next
    case three
    have b: "is_digit b" and c: "is_digit c" using assms(8) ds three by simp_all
    note e = d [unfolded ds three append.simps]
    have tok: "fst (get_command cfg (receive cfg [0x4D, a, b, c, 0x0D] s)) = (0x4D, a, b, c)"
      by (subst e(2))
        (simp add: byte_at_def blank_facts digit_facts [OF a] digit_facts [OF b]
          digit_facts [OF c])
    note r = dispatch_no_match [OF e(1) tok nm assms(4)]
    have p: "current_motion_page (SerialReceiveCommand cfg (receive cfg [0x4D, a, b, c, 0x0D] s))
               = ((a - 48) * 10 + (b - 48)) * 10 + (c - 48)"
      using r(3) by (simp add: a b c blank_facts)
    have q: "bioloid_command (SerialReceiveCommand cfg (receive cfg [0x4D, a, b, c, 0x0D] s))
               = COMMAND_MOTIONPAGE cfg"
      "last_motion_page (SerialReceiveCommand cfg (receive cfg [0x4D, a, b, c, 0x0D] s))
               = current_motion_page s"
      "last_bioloid_command (SerialReceiveCommand cfg (receive cfg [0x4D, a, b, c, 0x0D] s))
               = last_bioloid_command s"
      using r(1,2,4) by (simp_all add: e a)
    show ?thesis unfolding ds three append.simps
      by (simp only: p q page_values(3) [OF a b c] simp_thms)
  qed
qed

lemma MX_frame:
  assumes "rb_wf cfg s" and "gbSerialBufferHead s = gbSerialBufferTail s"
    and "6 \<le> MAXNUM_SERIALBUFF cfg"
    and "0 < NUMBER_OF_COMMANDS cfg" and "NUMBER_OF_COMMANDS cfg \<le> 20"
  shows "bioloid_command (SerialReceiveCommand cfg (receive cfg (bytes_of ''MX'' @ [0x0D]) s))
           = COMMAND_NOT_FOUND cfg"
proof -
  note [simp del] = receive.simps
  have fr: "bytes_of ''MX'' @ [0x0D] = [0x4D, 0x58, 0x0D]" by (simp add: bytes_of_def)
  have "(0x0D :: byte) \<notin> set [0x4D, 0x58]"
    "length [0x4D, 0x58 :: byte] + 2 \<le> MAXNUM_SERIALBUFF cfg"
    using assms(3) by simp_all
  note d = dispatch_after_receive [OF assms(1,2) this, unfolded append.simps]
  have tok: "fst (get_command cfg (receive cfg [0x4D, 0x58, 0x0D] s)) = (0x4D, 0x58, 0x20, 0x20)"
    by (subst d(2)) (simp add: byte_at_def blank_facts)
  have nm: "\<not> table_match cfg [0x4D, 0x58, 0x20, 0x20]"
    by (rule table_no_match_M [OF _ _ assms(5)]) simp_all
  from dispatch_no_match(1) [OF d(1) tok nm assms(4)] show ?thesis
    by (simp add: fr blank_facts)
qed

text \<open>
  C9. With \<open>flag_receive_ready\<close> at 0, \<open>SerialReceiveCommand\<close> returns at once:
  the commands, the motion pages, the flag, the buffer and the bytes transmitted are
  all as before.
\<close>

theorem dispatcher_idle:
  "flag_receive_ready s = 0 \<Longrightarrow> SerialReceiveCommand cfg s = s"
  by (simp add: SerialReceiveCommand_def)

theorem dispatcher_idle_witness:
  "flag_receive_ready (receive cm510 (bytes_of ''WF'') (serial_init (startup cm510))) = 0
   \<and> SerialReceiveCommand cm510 (receive cm510 (bytes_of ''WF'') (serial_init (startup cm510)))
       = receive cm510 (bytes_of ''WF'') (serial_init (startup cm510))"
proof -
  have e: "flag_receive_ready (receive cm510 (bytes_of ''WF'') (serial_init (startup cm510))) = 0"
    by code_simp
  show ?thesis using e dispatcher_idle [OF e, of cm510] by simp
qed

text \<open>
  C10. When a frame is dispatched, \<open>last_bioloid_command\<close> receives the old
  \<open>bioloid_command\<close> exactly when the command string matches an entry of the table;
  otherwise it keeps its value, while \<open>bioloid_command\<close> is overwritten with the motion
  page ordinal or the not-found ordinal.
\<close>

theorem previous_command_update:
  assumes "flag_receive_ready s \<noteq> 0" and "fst (get_command cfg s) = (c1, c2, c3, c4)"
  shows "last_bioloid_command (SerialReceiveCommand cfg s) =
           (if table_match cfg [c1, c2, c3, c4] then bioloid_command s
            else last_bioloid_command s) \<and>
         (\<not> table_match cfg [c1, c2, c3, c4] \<and> 0 < NUMBER_OF_COMMANDS cfg \<longrightarrow>
            bioloid_command (SerialReceiveCommand cfg s) =
              (if c1 = 0x4D \<and> is_digit c2 then COMMAND_MOTIONPAGE cfg
               else COMMAND_NOT_FOUND cfg))"
proof (cases "table_match cfg [c1, c2, c3, c4]")
  case True
  let ?P = "\<lambda>j. j < NUMBER_OF_COMMANDS cfg \<and>
                 strcmp_equal (bytes_of (COMMANDSTR_POINTER ! j)) [c1, c2, c3, c4]"
  from True have ex: "\<exists>j. ?P j" by (auto simp add: table_match_iff)
  define k where "k = (LEAST j. ?P j)"
  have k: "?P k" unfolding k_def using ex by (rule LeastI_ex)
  have first: "\<not> strcmp_equal (bytes_of (COMMANDSTR_POINTER ! j)) [c1, c2, c3, c4]"
    if "j < k" for j
  proof
    assume "strcmp_equal (bytes_of (COMMANDSTR_POINTER ! j)) [c1, c2, c3, c4]"
    then have "?P j" using that k by simp
    then have "k \<le> j" unfolding k_def by (rule Least_le)
    with that show False by simp
  qed
  from dispatch_match(1) [OF assms, of k] k first
  have "last_bioloid_command (SerialReceiveCommand cfg s) = bioloid_command s" by blast
  with True show ?thesis by simp
next
  case False
  have l: "last_bioloid_command (SerialReceiveCommand cfg s) = last_bioloid_command s"
  proof (cases "0 < NUMBER_OF_COMMANDS cfg")
    case True
    from dispatch_no_match(2) [OF assms False True] show ?thesis .
  next
    case no: False
    have ml: "match_loop cfg [c1, c2, c3, c4] 0 (snd (get_command cfg s))
                = snd (get_command cfg s)"
      using no by (subst match_loop.simps) simp
    show ?thesis
      by (simp add: SerialReceiveCommand_unfold [OF assms] ml acknowledge_fields
          motion_page_case_def Let_def get_command_fields)
  qed
  show ?thesis using False l dispatch_no_match(1) [OF assms False] by simp
qed

theorem previous_command_update_witness:
  "flag_receive_ready (receive cm510 (bytes_of ''wf'' @ [0x0D]) after_sit) \<noteq> 0 \<and>
   fst (get_command cm510 (receive cm510 (bytes_of ''wf'' @ [0x0D]) after_sit))
     = (0x57, 0x46, 0x20, 0x20) \<and>
   table_match cm510 [0x57, 0x46, 0x20, 0x20] \<and>
   bioloid_command (receive cm510 (bytes_of ''wf'' @ [0x0D]) after_sit) = 17 \<and>
   last_bioloid_command
     (SerialReceiveCommand cm510 (receive cm510 (bytes_of ''wf'' @ [0x0D]) after_sit)) = 17"
proof -
  let ?t = "receive cm510 (bytes_of ''wf'' @ [0x0D]) after_sit"
  have f: "flag_receive_ready ?t \<noteq> 0" unfolding after_sit_def by code_simp
  have g: "fst (get_command cm510 ?t) = (0x57, 0x46, 0x20, 0x20)"
    unfolding after_sit_def by code_simp
  have m: "table_match cm510 [0x57, 0x46, 0x20, 0x20]" by code_simp
  have b: "bioloid_command ?t = 17" unfolding after_sit_def by code_simp
  show ?thesis using f g m b previous_command_update [OF f g] by simp
qed

text \<open>
  The frame \<open>M\<close> alone is padded to the string of entry 19. A loop over all 20
  entries finds it there: \<open>bioloid_command\<close> becomes 19, \<open>last_bioloid_command\<close>
  takes the old command, and the motion pages are as before.
\<close>

lemma whole_table_scan_entry_M:
  assumes "rb_wf cfg s" and "gbSerialBufferHead s = gbSerialBufferTail s"
    and "3 \<le> MAXNUM_SERIALBUFF cfg" and "NUMBER_OF_COMMANDS cfg = 20"
  shows "bioloid_command (SerialReceiveCommand cfg (receive cfg (bytes_of ''M'' @ [0x0D]) s)) = 19 \<and>
         last_bioloid_command (SerialReceiveCommand cfg (receive cfg (bytes_of ''M'' @ [0x0D]) s))
           = bioloid_command s \<and>
         current_motion_page (SerialReceiveCommand cfg (receive cfg (bytes_of ''M'' @ [0x0D]) s))
           = current_motion_page s \<and>
         last_motion_page (SerialReceiveCommand cfg (receive cfg (bytes_of ''M'' @ [0x0D]) s))
           = last_motion_page s"
proof -
  note [simp del] = receive.simps
  have fr: "bytes_of ''M'' @ [0x0D] = [0x4D, 0x0D]" by (simp add: bytes_of_def)
  let ?r = "receive cfg [0x4D, 0x0D] s"
  have "(0x0D :: byte) \<notin> set [0x4D]" "length [0x4D :: byte] + 2 \<le> MAXNUM_SERIALBUFF cfg"
    using assms(3) by simp_all
  note d = dispatch_after_receive [OF assms(1,2) this, unfolded append.simps]
  have tok: "fst (get_command cfg ?r) = (0x4D, 0x20, 0x20, 0x20)"
    by (subst d(2)) (simp add: byte_at_def blank_facts)
  have k: "19 < NUMBER_OF_COMMANDS cfg" using assms(4) by simp
  have nd: "\<not> ((0x4D :: byte) = 0x4D \<and> is_digit 0x20)" by (simp add: blank_facts)
  from dispatch_match [OF d(1) tok k entry_M no_match_before_M] nd
  show ?thesis unfolding fr by (simp add: d)
qed



text \<open>
  C4, as the code has it. For a frame of \<open>M\<close> and one, two or three decimal digits,
  received into an empty buffer, \<open>bioloid_command\<close> becomes the motion page ordinal,
  \<open>last_motion_page\<close> takes the old page, and \<open>current_motion_page\<close>, an 8-bit
  variable, holds the base-10 value of the digits modulo 256: the exact value up to 255.
  The frame \<open>MX\<close> gives the not-found ordinal.
\<close>

theorem motion_page_frames:
  assumes "rb_wf cfg s" and "gbSerialBufferHead s = gbSerialBufferTail s"
    and "6 \<le> MAXNUM_SERIALBUFF cfg"
    and "0 < NUMBER_OF_COMMANDS cfg" and "NUMBER_OF_COMMANDS cfg \<le> 20"
    and "ds \<noteq> []" and "length ds \<le> 3" and "\<forall>d \<in> set ds. is_digit d"
  shows "bioloid_command
           (SerialReceiveCommand cfg (receive cfg (bytes_of ''M'' @ ds @ [0x0D]) s))
           = COMMAND_MOTIONPAGE cfg \<and>
         unat (current_motion_page
           (SerialReceiveCommand cfg (receive cfg (bytes_of ''M'' @ ds @ [0x0D]) s)))
           = decimal_value ds mod 256 \<and>
         last_motion_page
           (SerialReceiveCommand cfg (receive cfg (bytes_of ''M'' @ ds @ [0x0D]) s))
           = current_motion_page s \<and>
         bioloid_command
           (SerialReceiveCommand cfg (receive cfg (bytes_of ''MX'' @ [0x0D]) s))
           = COMMAND_NOT_FOUND cfg"
proof -
  have fr: "bytes_of ''M'' @ ds @ [0x0D] = (0x4D # ds) @ [0x0D]"
    by (simp add: bytes_of_def)
  note m = motion_frame [OF assms]
  have "unat (current_motion_page
           (SerialReceiveCommand cfg (receive cfg ((0x4D # ds) @ [0x0D]) s)))
          = unat (of_nat (decimal_value ds) :: byte)"
    using m by (simp only:)
  also have "\<dots> = decimal_value ds mod 256" by (simp add: unat_of_nat)
  finally show ?thesis
    unfolding fr using m MX_frame [OF assms(1-5)] by (simp only: simp_thms)
qed

theorem motion_page_frames_witness:
  "is_digit 0x32 \<and> is_digit 0x34 \<and> is_digit 0x33 \<and>
   bioloid_command (SerialReceiveCommand cm510
     (receive cm510 (bytes_of ''M243'' @ [0x0D]) (serial_init (startup cm510)))) = 19 \<and>
   unat (current_motion_page (SerialReceiveCommand cm510
     (receive cm510 (bytes_of ''M243'' @ [0x0D]) (serial_init (startup cm510))))) = 243 \<and>
   unat (current_motion_page (SerialReceiveCommand cm510
     (receive cm510 (bytes_of ''M24'' @ [0x0D]) (serial_init (startup cm510))))) = 24 \<and>
   unat (current_motion_page (SerialReceiveCommand cm510
     (receive cm510 (bytes_of ''M5'' @ [0x0D]) (serial_init (startup cm510))))) = 5 \<and>
   bioloid_command (SerialReceiveCommand cm510
     (receive cm510 (bytes_of ''MX'' @ [0x0D]) (serial_init (startup cm510)))) = 0xFF"
proof -
  have wf: "rb_wf cm510 (serial_init (startup cm510))"
    by (simp add: rb_wf_def serial_init_def startup_def cm510_def)
  have e: "gbSerialBufferHead (serial_init (startup cm510))
             = gbSerialBufferTail (serial_init (startup cm510))"
    by (simp add: serial_init_def)
  have c: "6 \<le> MAXNUM_SERIALBUFF cm510" "0 < NUMBER_OF_COMMANDS cm510"
    "NUMBER_OF_COMMANDS cm510 \<le> 20"
    by (simp_all add: cm510_def)
  have dg: "is_digit 0x32" "is_digit 0x34" "is_digit 0x33" "is_digit 0x35"
    by (simp_all add: is_digit_def)
  have d3: "[0x32, 0x34, 0x33 :: byte] \<noteq> []" "length [0x32, 0x34, 0x33 :: byte] \<le> 3"
    "\<forall>d \<in> set [0x32, 0x34, 0x33 :: byte]. is_digit d"
    using dg by simp_all
  have d2: "[0x32, 0x34 :: byte] \<noteq> []" "length [0x32, 0x34 :: byte] \<le> 3"
    "\<forall>d \<in> set [0x32, 0x34 :: byte]. is_digit d"
    using dg by simp_all
  have d1: "[0x35 :: byte] \<noteq> []" "length [0x35 :: byte] \<le> 3"
    "\<forall>d \<in> set [0x35 :: byte]. is_digit d"
    using dg by simp_all
  have fr: "bytes_of ''M243'' = bytes_of ''M'' @ [0x32, 0x34, 0x33]"
    "bytes_of ''M24'' = bytes_of ''M'' @ [0x32, 0x34]"
    "bytes_of ''M5'' = bytes_of ''M'' @ [0x35]"
    by (simp_all add: bytes_of_def)
  have v: "decimal_value [0x32, 0x34, 0x33] mod 256 = 243"
    "decimal_value [0x32, 0x34] mod 256 = 24" "decimal_value [0x35] mod 256 = 5"
    by (simp_all add: decimal_value_def)
  have k: "COMMAND_MOTIONPAGE cm510 = 19" "COMMAND_NOT_FOUND cm510 = 0xFF"
    by (simp_all add: cm510_def)
  show ?thesis
    using motion_page_frames [OF wf e c d3] motion_page_frames [OF wf e c d2]
      motion_page_frames [OF wf e c d1] dg
    by (simp only: fr v k append_assoc simp_thms)
qed

text \<open>The frame \<open>M999\<close> leaves 231 in \<open>current_motion_page\<close>, not 999.\<close>

theorem motion_page_frames_counterexample:
  "unat (current_motion_page (SerialReceiveCommand cm510
     (receive cm510 (bytes_of ''M999'' @ [0x0D]) (serial_init (startup cm510))))) = 231 \<and>
   unat (current_motion_page (SerialReceiveCommand cm510
     (receive cm510 (bytes_of ''M999'' @ [0x0D]) (serial_init (startup cm510))))) \<noteq> 999"
  by code_simp

text \<open>
  C1. The test of the fourth character does not depend on the third: the frame
  \<open>M2X4\<close> gives motion page 24, where the digits before the non-digit have the value 2.
\<close>

theorem digit_after_non_digit:
  "bioloid_command (SerialReceiveCommand cm510
     (receive cm510 (bytes_of ''M2X4'' @ [0x0D]) (serial_init (startup cm510))))
     = COMMAND_MOTIONPAGE cm510 \<and>
   current_motion_page (SerialReceiveCommand cm510
     (receive cm510 (bytes_of ''M2X4'' @ [0x0D]) (serial_init (startup cm510)))) = 24"
  by code_simp

text \<open>
  C3. The first byte of the command is not compared with \<open>0xFF\<close>: for the empty frame
  the command is \<open>0xFF\<close> followed by three blanks, not four blanks.
\<close>

theorem empty_frame_token:
  "fst (get_command cm510 (receive cm510 [0x0D] (serial_init (startup cm510))))
     = (0xFF, 0x20, 0x20, 0x20)"
  by code_simp

end
